theory Spec2Isabelle
  imports Main "HOL-Library.Sublist"
begin

section \<open>Adaptor trimming (src/align/adaptor\_trim.py)\<close>

text \<open>
  A shallow embedding of the trimming core of \<^verbatim>\<open>adaptor_trim.py\<close>. Reads, adaptors and
  quality strings are Python strings, here \<open>string\<close>. Python integers are \<open>int\<close>.
  An exception raised by the source is a value \<open>Inl e\<close> of a sum type.
\<close>

subsection \<open>Python string primitives used by the source\<close>

datatype error = IndexError | AssertionError

text \<open>
  A slice bound of Python: a negative bound counts from the end, and every bound is
  clamped to the range from 0 to the length.
\<close>

definition py_index :: "nat \<Rightarrow> int \<Rightarrow> nat" where
  "py_index n i = (if i < 0 then nat (max 0 (i + int n)) else min n (nat i))"

text \<open>\<^verbatim>\<open>xs[i:j]\<close>, \<^verbatim>\<open>xs[:j]\<close> and \<^verbatim>\<open>xs[i:]\<close>.\<close>

definition py_slice :: "'a list \<Rightarrow> int \<Rightarrow> int \<Rightarrow> 'a list" where
  "py_slice xs i j =
     (let lo = py_index (length xs) i; hi = py_index (length xs) j
      in take (hi - lo) (drop lo xs))"

definition py_slice_to :: "'a list \<Rightarrow> int \<Rightarrow> 'a list" where
  "py_slice_to xs j = take (py_index (length xs) j) xs"

definition py_slice_from :: "'a list \<Rightarrow> int \<Rightarrow> 'a list" where
  "py_slice_from xs i = drop (py_index (length xs) i) xs"

text \<open>
  \<^verbatim>\<open>s.find(sub)\<close>: the lowest index at which \<open>sub\<close> starts in \<open>s\<close>, or \<open>-1\<close>.
  The empty string is found at 0.
\<close>

fun py_find :: "'a list \<Rightarrow> 'a list \<Rightarrow> int" where
  "py_find [] sub = (if sub = [] then 0 else - 1)"
| "py_find (x # xs) sub =
     (if prefix sub (x # xs) then 0
      else (let r = py_find xs sub in if r < 0 then - 1 else r + 1))"

text \<open>
  \<^verbatim>\<open>s.rfind(sub)\<close>: the highest index at which \<open>sub\<close> starts in \<open>s\<close>, or \<open>-1\<close>.
  The empty string is found at \<open>len(s)\<close>.
\<close>

fun py_rfind :: "'a list \<Rightarrow> 'a list \<Rightarrow> int" where
  "py_rfind [] sub = (if sub = [] then 0 else - 1)"
| "py_rfind (x # xs) sub =
     (let r = py_rfind xs sub in
      if 0 \<le> r then r + 1
      else if prefix sub (x # xs) then 0 else - 1)"

text \<open>\<^verbatim>\<open>s.replace(gap_char, "")\<close> with \<^verbatim>\<open>gap_char = '-'\<close>.\<close>

definition gap_char :: char where
  "gap_char = CHR ''-''"

definition strip_gaps :: "string \<Rightarrow> string" where
  "strip_gaps s = filter (\<lambda>c. c \<noteq> gap_char) s"

subsection \<open>The aligner\<close>

text \<open>
  \<^verbatim>\<open>pairwise2.align.localms\<close> belongs to Biopython, not to this repository, so the
  aligner is a parameter of the model: a function from the read and the adaptor to the
  list of alignments \<^verbatim>\<open>(seq_a, adaptor_a, score, start, end)\<close> that the call with the
  fixed scores \<^verbatim>\<open>5.0, -4.0, -9.0, -0.5\<close>, \<^verbatim>\<open>one_alignment_only=True\<close> and the gap
  character \<^verbatim>\<open>'-'\<close> returns. The score is never read by the trimmer; its type is left
  open.
\<close>

type_synonym 'sc alignment = "string \<times> string \<times> 'sc \<times> int \<times> int"

type_synonym 'sc aligner = "string \<Rightarrow> string \<Rightarrow> 'sc alignment list"

text \<open>The aligner that never finds an alignment (used at concrete inputs).\<close>

definition no_aligns :: "int aligner" where
  "no_aligns seq adaptor = []"

text \<open>
  The alignment that the test \<^verbatim>\<open>t_1_simple_trim\<close> relies on for the read with one
  mismatch: the adaptor laid under offsets 3 to 15 of the read.
\<close>

definition test_aligns :: "int aligner" where
  "test_aligns seq adaptor =
     (if seq = ''GGGGATCGTTCGATCCCC'' \<and> adaptor = ''GATCGATCGATC''
      then [(''GGGGATCGTTCGATCCCC'', ''---GATCGATCGATC---'', 51, 3, 15)]
      else [])"

text \<open>
  An alignment with a gap on the read side. The read holds twice the copy
  \<^verbatim>\<open>GATCGATCGTC\<close> of the adaptor that test \<^verbatim>\<open>t_1_simple_trim\<close> uses for a deletion (the
  \<^verbatim>\<open>A\<close> before the last \<^verbatim>\<open>TC\<close> is missing), so the best local alignment opens one gap
  in the read: 11 matches and one gap, score 46. The two copies align equally well;
  the alignment below is the one at the first copy, and the one at the second copy
  has the same read-side region.
\<close>

definition deletion_aligns :: "int aligner" where
  "deletion_aligns seq adaptor =
     (if seq = ''GGGGATCGATCGTCCCCGATCGATCGTCTTT'' \<and> adaptor = ''GATCGATCGATC''
      then [(''GGGGATCGATCG-TCCCCGATCGATCGTCTTT'', ''---GATCGATCGATC-----------------'', 46, 3, 15)]
      else [])"

subsection \<open>\<^verbatim>\<open>_remove_adaptor\<close> (lines 23 to 46)\<close>

definition remove_adaptor :: "string \<Rightarrow> string \<Rightarrow> bool \<Rightarrow> string" where
  "remove_adaptor seq region right_side =
     (if right_side then
        (let pos = py_find seq region in py_slice_to seq pos)
      else
        (let pos = py_rfind seq region in py_slice_from seq (pos + int (length region))))"

subsection \<open>\<^verbatim>\<open>trim_adaptor\<close> (lines 48 to 83)\<close>

text \<open>
  Lines 60 to 74: the read-side and the adaptor-side region, from the exact match when
  there is one, from the first alignment otherwise, both empty when there is none.
\<close>

definition match_regions :: "'sc aligner \<Rightarrow> string \<Rightarrow> string \<Rightarrow> string \<times> string" where
  "match_regions localms seq adaptor =
     (let exact_pos = py_find seq adaptor in
      if 0 \<le> exact_pos then
        (py_slice seq exact_pos (exact_pos + int (length adaptor)), adaptor)
      else
        (case localms seq adaptor of
           [] \<Rightarrow> ([], [])
         | (seq_a, adaptor_a, score, start, end) # rest \<Rightarrow>
             (py_slice seq_a start end, py_slice adaptor_a start end)))"

text \<open>
  Lines 75 and 76: the loop runs over the read-side region and reads the adaptor-side
  region at the same index; reading past its end raises \<^verbatim>\<open>IndexError\<close> (\<open>None\<close>).
\<close>

fun count_matches :: "string \<Rightarrow> string \<Rightarrow> nat option" where
  "count_matches [] adapt_region = Some 0"
| "count_matches (s # ss) [] = None"
| "count_matches (s # ss) (a # as) =
     map_option (\<lambda>n. (if s = a then 1 else 0) + n) (count_matches ss as)"

definition trim_adaptor ::
  "'sc aligner \<Rightarrow> string \<Rightarrow> string \<Rightarrow> int \<Rightarrow> bool \<Rightarrow> error + string" where
  "trim_adaptor localms seq adaptor num_errors right_side =
     (case match_regions localms seq adaptor of (seq_region, adapt_region) \<Rightarrow>
        (case count_matches seq_region adapt_region of
           None \<Rightarrow> Inl IndexError
         | Some matches \<Rightarrow>
             if int (length adaptor) - int matches > num_errors then Inr seq
             else Inr (remove_adaptor seq (strip_gaps seq_region) right_side)))"

subsection \<open>\<^verbatim>\<open>trim_adaptor_w_qual\<close> (lines 85 to 98)\<close>

definition trim_adaptor_w_qual ::
  "'sc aligner \<Rightarrow> string \<Rightarrow> string \<Rightarrow> string \<Rightarrow> int \<Rightarrow> bool \<Rightarrow> error + (string \<times> string)" where
  "trim_adaptor_w_qual localms seq qual adaptor num_errors right_side =
     (if length seq \<noteq> length qual then Inl AssertionError
      else
        (case trim_adaptor localms seq adaptor num_errors right_side of
           Inl e \<Rightarrow> Inl e
         | Inr tseq \<Rightarrow>
             (let pos = (if right_side then py_find seq tseq else py_rfind seq tseq);
                  tqual = py_slice qual pos (pos + int (length tseq))
              in if length tseq \<noteq> length tqual then Inl AssertionError
                 else Inr (tseq, tqual))))"

subsection \<open>The batch driver \<^verbatim>\<open>main\<close> (lines 207 to 217)\<close>

text \<open>
  A FASTQ record as the loop uses it: identifier, sequence, per-letter annotations (the
  qualities). Opening and parsing the files and \<^verbatim>\<open>int(num_errors)\<close> are left to the
  caller; the output handle is the list of the records written so far. An exception
  ends the loop with what was written before it.
\<close>

record seq_record =
  rec_id :: string
  rec_seq :: string
  letter_annotations :: "(string \<times> nat list) list"

fun main_loop ::
  "'sc aligner \<Rightarrow> string \<Rightarrow> int \<Rightarrow> seq_record list \<Rightarrow> seq_record list
     \<Rightarrow> error option \<times> seq_record list" where
  "main_loop localms adaptor_seq num_errors [] out = (None, out)"
| "main_loop localms adaptor_seq num_errors (rec # recs) out =
     (case trim_adaptor localms (rec_seq rec) adaptor_seq num_errors True of
        Inl e \<Rightarrow> (Some e, out)
      | Inr trim \<Rightarrow>
          if 0 < length trim \<and> length trim < length (rec_seq rec) then
            main_loop localms adaptor_seq num_errors recs
              (out @ [rec\<lparr>letter_annotations := [], rec_seq := trim\<rparr>])
          else main_loop localms adaptor_seq num_errors recs out)"

text \<open>Three records for concrete runs of the loop: one that is trimmed, one that is left
  as it is, one that is trimmed to nothing.\<close>

definition test_records :: "seq_record list" where
  "test_records =
     [\<lparr>rec_id = ''read1'', rec_seq = ''GGGGATCGTTCGATCCCC'',
        letter_annotations = [(''phred_quality'', [40, 40, 40, 30, 30, 30, 30, 30, 30, 30, 30, 30, 30, 30, 30, 20, 20, 20])]\<rparr>,
      \<lparr>rec_id = ''read2'', rec_seq = ''TTTT'',
        letter_annotations = [(''phred_quality'', [40, 40, 40, 40])]\<rparr>,
      \<lparr>rec_id = ''read3'', rec_seq = ''GATCGATCGATCCC'',
        letter_annotations = [(''phred_quality'', [30, 30, 30, 30, 30, 30, 30, 30, 30, 30, 30, 30, 20, 20])]\<rparr>]"

subsection \<open>What the trimmer expects of an alignment\<close>

text \<open>
  An alignment pads both strings with gap characters to one common length, and its
  read-side string is the read with gap characters inserted. The two conditions below
  say so for the alignment that the trimmer reads, the first of the list.
\<close>

definition equal_length_alignment :: "'sc alignment list \<Rightarrow> bool" where
  "equal_length_alignment aligns =
     (case aligns of
        [] \<Rightarrow> True
      | (seq_a, adaptor_a, score, start, end) # rest \<Rightarrow> length seq_a = length adaptor_a)"

definition read_aligned :: "string \<Rightarrow> 'sc alignment list \<Rightarrow> bool" where
  "read_aligned seq aligns =
     (case aligns of
        [] \<Rightarrow> True
      | (seq_a, adaptor_a, score, start, end) # rest \<Rightarrow> strip_gaps seq_a = seq)"

section \<open>Properties\<close>

subsection \<open>Searching and slicing\<close>

lemma py_find_range: "- 1 \<le> py_find xs sub \<and> py_find xs sub \<le> int (length xs)"
  by (induction xs) (auto simp: Let_def)

lemma py_find_nil [simp]: "py_find xs [] = 0"
  by (cases xs) simp_all

lemma py_rfind_range: "- 1 \<le> py_rfind xs sub \<and> py_rfind xs sub \<le> int (length xs)"
  by (induction xs) (auto simp: Let_def)

lemma py_rfind_nil [simp]: "py_rfind xs [] = int (length xs)"
  by (induction xs) (auto simp: Let_def)

lemma py_find_sublist: "0 \<le> py_find xs sub \<longleftrightarrow> sublist sub xs"
proof (induction xs)
  case Nil
  show ?case by simp
next
  case (Cons x xs)
  have "- 1 \<le> py_find xs sub" using py_find_range by blast
  with Cons show ?case
    by (auto simp: Let_def sublist_Cons_right)
qed

lemma py_rfind_sublist: "0 \<le> py_rfind xs sub \<longleftrightarrow> sublist sub xs"
proof (induction xs)
  case Nil
  show ?case by simp
next
  case (Cons x xs)
  have "- 1 \<le> py_rfind xs sub" using py_rfind_range by blast
  with Cons show ?case
    by (auto simp: Let_def sublist_Cons_right)
qed

lemma py_find_prefix_drop:
  "0 \<le> py_find xs sub \<Longrightarrow> prefix sub (drop (nat (py_find xs sub)) xs)"
proof (induction xs)
  case Nil
  then show ?case by (simp split: if_splits)
next
  case (Cons x xs)
  show ?case
  proof (cases "prefix sub (x # xs)")
    case True
    then show ?thesis by simp
  next
    case False
    with Cons.prems have r: "0 \<le> py_find xs sub"
      by (simp add: Let_def split: if_splits)
    with False have "py_find (x # xs) sub = py_find xs sub + 1"
      by (simp add: Let_def)
    moreover from r have "nat (py_find xs sub + 1) = Suc (nat (py_find xs sub))"
      by simp
    ultimately show ?thesis using Cons.IH [OF r] by simp
  qed
qed

lemma py_rfind_prefix_drop:
  "0 \<le> py_rfind xs sub \<Longrightarrow> prefix sub (drop (nat (py_rfind xs sub)) xs)"
proof (induction xs)
  case Nil
  then show ?case by (simp split: if_splits)
next
  case (Cons x xs)
  show ?case
  proof (cases "0 \<le> py_rfind xs sub")
    case True
    then have "py_rfind (x # xs) sub = py_rfind xs sub + 1"
      by (simp add: Let_def)
    moreover from True have "nat (py_rfind xs sub + 1) = Suc (nat (py_rfind xs sub))"
      by simp
    ultimately show ?thesis using Cons.IH [OF True] by simp
  next
    case False
    with Cons.prems show ?thesis
      by (simp add: Let_def split: if_splits)
  qed
qed

lemma py_find_le: "py_find (pre @ sub @ post) sub \<le> int (length pre)"
proof (induction pre)
  case Nil
  have "prefix sub (sub @ post)" by simp
  then show ?case by (cases "sub @ post") simp_all
next
  case (Cons p ps)
  have "0 \<le> py_find (ps @ sub @ post) sub"
    by (simp add: py_find_sublist sublist_appendI)
  with Cons show ?case by (simp add: Let_def)
qed

lemma py_rfind_ge: "int (length pre) \<le> py_rfind (pre @ sub @ post) sub"
proof (induction pre)
  case Nil
  show ?case by (simp add: py_rfind_sublist)
next
  case (Cons p ps)
  then show ?case by (simp add: Let_def)
qed

lemma py_find_first:
  assumes "xs = pre @ sub @ post"
    and "\<forall>pre' post'. xs = pre' @ sub @ post' \<longrightarrow> length pre \<le> length pre'"
  shows "py_find xs sub = int (length pre)"
proof -
  let ?k = "nat (py_find xs sub)"
  have nonneg: "0 \<le> py_find xs sub"
    using assms(1) by (simp add: py_find_sublist sublist_appendI)
  have le: "py_find xs sub \<le> int (length pre)"
    using assms(1) py_find_le by simp
  from py_find_prefix_drop [OF nonneg] obtain post' where "drop ?k xs = sub @ post'"
    by (auto simp: prefix_def)
  then have "xs = take ?k xs @ sub @ post'"
    by (metis append_take_drop_id)
  with assms(2) have "length pre \<le> length (take ?k xs)" by blast
  then have "length pre \<le> ?k" by simp
  with nonneg le show ?thesis by simp
qed

lemma py_rfind_last:
  assumes "xs = pre @ sub @ post"
    and "\<forall>pre' post'. xs = pre' @ sub @ post' \<longrightarrow> length pre' \<le> length pre"
  shows "py_rfind xs sub = int (length pre)"
proof -
  let ?k = "nat (py_rfind xs sub)"
  have ge: "int (length pre) \<le> py_rfind xs sub"
    using assms(1) py_rfind_ge by simp
  then have nonneg: "0 \<le> py_rfind xs sub" by simp
  have up: "py_rfind xs sub \<le> int (length xs)" using py_rfind_range by blast
  from py_rfind_prefix_drop [OF nonneg] obtain post' where "drop ?k xs = sub @ post'"
    by (auto simp: prefix_def)
  then have "xs = take ?k xs @ sub @ post'"
    by (metis append_take_drop_id)
  with assms(2) have "length (take ?k xs) \<le> length pre" by blast
  moreover have "length (take ?k xs) = ?k" using up nonneg by simp
  ultimately show ?thesis using ge nonneg by simp
qed


lemma py_slice_to_nat: "py_slice_to xs (int k) = take k xs"
  by (cases "k \<le> length xs") (simp_all add: py_slice_to_def py_index_def min_def)

lemma py_slice_from_nat: "py_slice_from xs (int k) = drop k xs"
  by (cases "k \<le> length xs") (simp_all add: py_slice_from_def py_index_def min_def)

lemma py_slice_nat: "py_slice xs (int i) (int i + int n) = take n (drop i xs)"
proof -
  have hi: "nat (int i + int n) = i + n" by simp
  show ?thesis
  proof (cases "i + n \<le> length xs")
    case True
    then show ?thesis by (simp add: py_slice_def py_index_def Let_def hi min_def)
  next
    case False
    then show ?thesis
      by (cases "i \<le> length xs") (simp_all add: py_slice_def py_index_def Let_def hi min_def)
  qed
qed

lemma py_slice_to_prefix: "prefix (py_slice_to xs j) xs"
  by (simp add: py_slice_to_def take_is_prefix)

lemma py_slice_from_suffix: "suffix (py_slice_from xs i) xs"
  by (simp add: py_slice_from_def suffix_drop)

lemma py_slice_same_length:
  "length xs = length ys \<Longrightarrow> length (py_slice xs i j) = length (py_slice ys i j)"
  by (simp add: py_slice_def Let_def)

lemma py_slice_split:
  "\<exists>pre post. xs = pre @ py_slice xs i j @ post"
proof -
  let ?lo = "py_index (length xs) i"
  let ?hi = "py_index (length xs) j"
  have "drop ?lo xs = take (?hi - ?lo) (drop ?lo xs) @ drop (?hi - ?lo) (drop ?lo xs)"
    by (simp only: append_take_drop_id)
  moreover have "xs = take ?lo xs @ drop ?lo xs"
    by (simp only: append_take_drop_id)
  ultimately have "xs = take ?lo xs @ take (?hi - ?lo) (drop ?lo xs) @ drop (?hi - ?lo) (drop ?lo xs)"
    by (simp only:)
  then show ?thesis unfolding py_slice_def Let_def by blast
qed

lemma count_matches_zip:
  "length sr \<le> length ar \<Longrightarrow>
   count_matches sr ar = Some (length (filter (\<lambda>(s, a). s = a) (zip sr ar)))"
  by (induction sr ar rule: count_matches.induct) simp_all

lemma count_matches_None: "count_matches sr ar = None \<longleftrightarrow> length ar < length sr"
  by (induction sr ar rule: count_matches.induct) simp_all

lemma count_matches_same: "count_matches xs xs = Some (length xs)"
  by (induction xs) simp_all

lemma count_matches_append:
  "length sr \<le> length ar \<Longrightarrow> count_matches sr (ar @ extra) = count_matches sr ar"
  by (induction sr ar rule: count_matches.induct) simp_all

lemma strip_gaps_id: "gap_char \<notin> set s \<Longrightarrow> strip_gaps s = s"
  by (auto simp: strip_gaps_def filter_id_conv)

lemma match_regions_exact:
  assumes "0 \<le> py_find seq adaptor"
  shows "match_regions localms seq adaptor = (adaptor, adaptor)"
proof -
  let ?k = "nat (py_find seq adaptor)"
  from py_find_prefix_drop [OF assms] have "take (length adaptor) (drop ?k seq) = adaptor"
    by (auto simp: prefix_def)
  moreover have "py_slice seq (int ?k) (int ?k + int (length adaptor))
      = take (length adaptor) (drop ?k seq)"
    by (rule py_slice_nat)
  ultimately show ?thesis using assms by (simp add: match_regions_def)
qed

lemma trim_adaptor_exact:
  assumes "0 \<le> py_find seq adaptor" and "0 \<le> num_errors"
  shows "trim_adaptor localms seq adaptor num_errors right_side
           = Inr (remove_adaptor seq (strip_gaps adaptor) right_side)"
  using assms(2)
  by (simp add: trim_adaptor_def match_regions_exact [OF assms(1)] count_matches_same)

subsection \<open>Exact matches\<close>

text \<open>
  Claim C1, as amended. Let the adaptor \<open>A\<close> occur in the read \<open>R\<close>, let \<open>pre\<close> be
  what stands before its leftmost occurrence, let \<open>A\<close> hold no gap character \<^verbatim>\<open>'-'\<close>
  and let the tolerance be at least 0. Then trimming on the right returns exactly
  \<open>pre\<close>, whatever the aligner is: it is not consulted.
\<close>

theorem exact_match_trims_prefix:
  assumes "R = pre @ A @ post"
    and "\<forall>pre' post'. R = pre' @ A @ post' \<longrightarrow> length pre \<le> length pre'"
    and "gap_char \<notin> set A"
    and "0 \<le> e"
  shows "trim_adaptor localms R A e True = Inr pre"
proof -
  have pos: "py_find R A = int (length pre)"
    using assms(1,2) by (rule py_find_first)
  then have "trim_adaptor localms R A e True = Inr (remove_adaptor R (strip_gaps A) True)"
    using assms(4) by (simp add: trim_adaptor_exact)
  also have "remove_adaptor R (strip_gaps A) True = pre"
    using pos assms(1,3) by (simp add: remove_adaptor_def strip_gaps_id py_slice_to_nat)
  finally show ?thesis .
qed

text \<open>
  The theorem at the read of test \<^verbatim>\<open>t_3_repetitive_sequence\<close>, where the adaptor
  occurs twice and the leftmost occurrence starts at offset 3.
\<close>

theorem exact_match_trims_prefix_witness:
  "trim_adaptor test_aligns ''GGGGATCGATCGATCCCC'' ''GATCGATC'' 2 True = Inr ''GGG''"
proof -
  have first: "\<forall>pre' post'. ''GGGGATCGATCGATCCCC'' = pre' @ ''GATCGATC'' @ post'
      \<longrightarrow> length ''GGG'' \<le> length pre'"
  proof (intro allI impI)
    fix pre' post' :: string
    assume eq: "''GGGGATCGATCGATCCCC'' = pre' @ ''GATCGATC'' @ post'"
    have "py_find (pre' @ ''GATCGATC'' @ post') ''GATCGATC'' \<le> int (length pre')"
      by (rule py_find_le)
    moreover have "py_find ''GGGGATCGATCGATCCCC'' ''GATCGATC'' = 3"
      by (simp add: Let_def)
    ultimately show "length ''GGG'' \<le> length pre'" using eq by simp
  qed
  show ?thesis
    using exact_match_trims_prefix [of "''GGGGATCGATCGATCCCC''" "''GGG''" "''GATCGATC''"
        "''GATCCCC''" 2 test_aligns] first
    by (simp add: gap_char_def)
qed

text \<open>
  Claim C1 as stated fails for an adaptor that holds the gap character: the adaptor
  \<^verbatim>\<open>A-C\<close> occurs in \<^verbatim>\<open>ACA-C\<close> at offset 2 only, the prefix before it is \<^verbatim>\<open>AC\<close>, yet the
  removal step searches for the stripped region \<^verbatim>\<open>AC\<close>, finds it at offset 0 and returns
  the empty string.
\<close>

theorem exact_match_gap_counterexample:
  "''ACA-C'' = ''AC'' @ ''A-C'' @ [] \<and> py_find ''ACA-C'' ''A-C'' = 2
   \<and> trim_adaptor no_aligns ''ACA-C'' ''A-C'' 0 True = Inr []
   \<and> trim_adaptor no_aligns ''ACA-C'' ''A-C'' 0 True \<noteq> Inr ''AC''"
  by (simp add: trim_adaptor_def match_regions_def remove_adaptor_def strip_gaps_def
      gap_char_def py_slice_def py_slice_to_def py_index_def Let_def)

text \<open>
  Claim C10. With the empty adaptor and a tolerance of at least 0 the whole read is
  discarded on either side: the empty adaptor is found at offset 0, both regions are
  empty, \<^verbatim>\<open>find\<close> of the empty string is 0 and \<^verbatim>\<open>rfind\<close> of it is the length of the
  read.
\<close>

theorem empty_adaptor_discards_read:
  assumes "0 \<le> num_errors"
  shows "py_find R [] = 0 \<and> py_rfind R [] = int (length R)
         \<and> match_regions localms R [] = ([], [])
         \<and> trim_adaptor localms R [] num_errors True = Inr []
         \<and> trim_adaptor localms R [] num_errors False = Inr []"
proof -
  have "match_regions localms R [] = ([], [])"
    by (simp add: match_regions_exact)
  moreover have "trim_adaptor localms R [] num_errors side = Inr []" for side
    using assms
    by (simp add: trim_adaptor_exact remove_adaptor_def strip_gaps_def py_slice_to_def
        py_slice_from_def py_index_def)
  ultimately show ?thesis by simp
qed

text \<open>
  The theorem at the read \<^verbatim>\<open>GGGCCC\<close> with tolerance 0.
\<close>

theorem empty_adaptor_discards_read_witness:
  "trim_adaptor no_aligns ''GGGCCC'' [] 0 True = Inr []
   \<and> trim_adaptor no_aligns ''GGGCCC'' [] 0 False = Inr []"
  using empty_adaptor_discards_read [of 0 "''GGGCCC''" no_aligns] by simp

lemma trim_adaptor_branches:
  assumes "match_regions localms seq adaptor = (sr, ar)" and "count_matches sr ar = Some m"
  shows "trim_adaptor localms seq adaptor num_errors side =
           (if num_errors < int (length adaptor) - int m then Inr seq
            else Inr (remove_adaptor seq (strip_gaps sr) side))"
  using assms by (simp add: trim_adaptor_def)

lemma remove_adaptor_changes:
  assumes "seq \<noteq> []" and "sublist region seq"
  shows "remove_adaptor seq region side \<noteq> seq"
proof (cases side)
  case True
  let ?pos = "py_find seq region"
  have nonneg: "0 \<le> ?pos" using assms(2) by (simp add: py_find_sublist)
  have "nat ?pos < length seq"
  proof (cases "region = []")
    case True
    then show ?thesis using assms(1) by simp
  next
    case False
    from py_find_prefix_drop [OF nonneg] False have "drop (nat ?pos) seq \<noteq> []"
      by auto
    then show ?thesis by simp
  qed
  then have "length (take (nat ?pos) seq) < length seq" by simp
  moreover have "remove_adaptor seq region True = take (nat ?pos) seq"
    using nonneg py_slice_to_nat [of seq "nat ?pos"] by (simp add: remove_adaptor_def)
  ultimately have "length (remove_adaptor seq region True) < length seq"
    by (simp only:)
  then show ?thesis using True by (metis less_irrefl)
next
  case False
  let ?pos = "py_rfind seq region"
  have nonneg: "0 \<le> ?pos" using assms(2) by (simp add: py_rfind_sublist)
  have "0 < nat ?pos + length region"
  proof (cases "region = []")
    case True
    then show ?thesis using assms(1) by simp
  next
    case False
    then show ?thesis by simp
  qed
  then have "length (drop (nat ?pos + length region) seq) < length seq"
    using assms(1) by simp
  moreover have "remove_adaptor seq region False = drop (nat ?pos + length region) seq"
    using nonneg py_slice_from_nat [of seq "nat ?pos + length region"]
    by (simp add: remove_adaptor_def)
  ultimately have "length (remove_adaptor seq region False) < length seq"
    by (simp only:)
  then show ?thesis using False by (metis less_irrefl)
qed

subsection \<open>The acceptance rule\<close>

text \<open>
  Claim C2, as amended. Let \<open>m\<close> be the number of matching positions of the two
  regions, so that the error count is \<open>len(adaptor) - m\<close>. When the error count exceeds
  \<open>num_errors\<close> the read is returned as it is, on either side. Otherwise, equality
  included, the result is that of the removal step. For a read that is not empty and
  holds the stripped read-side region, the result is the unchanged read if and only if
  the error count exceeds \<open>num_errors\<close>.
\<close>

theorem acceptance_rule:
  assumes "match_regions localms seq adaptor = (sr, ar)" and "count_matches sr ar = Some m"
  shows "(num_errors < int (length adaptor) - int m \<longrightarrow>
            trim_adaptor localms seq adaptor num_errors side = Inr seq)
       \<and> (int (length adaptor) - int m \<le> num_errors \<longrightarrow>
            trim_adaptor localms seq adaptor num_errors side
              = Inr (remove_adaptor seq (strip_gaps sr) side))
       \<and> (seq \<noteq> [] \<and> sublist (strip_gaps sr) seq \<longrightarrow>
            (trim_adaptor localms seq adaptor num_errors side = Inr seq
               \<longleftrightarrow> num_errors < int (length adaptor) - int m))"
  using trim_adaptor_branches [OF assms, of num_errors side]
    remove_adaptor_changes [of seq "strip_gaps sr" side]
  by auto

lemma test_regions:
  "match_regions test_aligns ''GGGGATCGTTCGATCCCC'' ''GATCGATCGATC''
     = (''GATCGTTCGATC'', ''GATCGATCGATC'')"
  by (simp add: match_regions_def test_aligns_def py_slice_def py_index_def Let_def)

text \<open>
  The theorem at the read of test \<^verbatim>\<open>t_1_simple_trim\<close> with one mismatch: tolerance 0
  leaves the read as it is, tolerance 1 (equal to the error count) trims it.
\<close>

theorem acceptance_rule_witness:
  "trim_adaptor test_aligns ''GGGGATCGTTCGATCCCC'' ''GATCGATCGATC'' 0 True
     = Inr ''GGGGATCGTTCGATCCCC''
   \<and> trim_adaptor test_aligns ''GGGGATCGTTCGATCCCC'' ''GATCGATCGATC'' 1 True
     = Inr ''GGG''"
proof -
  have c: "count_matches ''GATCGTTCGATC'' ''GATCGATCGATC'' = Some 11" by simp
  have r: "remove_adaptor ''GGGGATCGTTCGATCCCC'' (strip_gaps ''GATCGTTCGATC'') True = ''GGG''"
    by (simp add: remove_adaptor_def strip_gaps_def gap_char_def py_slice_to_def
        py_index_def Let_def)
  show ?thesis
    using acceptance_rule [OF test_regions c, of 0 True]
      acceptance_rule [OF test_regions c, of 1 True] r
    by simp
qed

text \<open>
  Claim C2 as stated fails in the direction from "unchanged" to "too many errors": for
  the empty read and the empty adaptor the error count 0 does not exceed the
  tolerance 0, trimming proceeds, and its result is the empty read again.
\<close>

theorem acceptance_rule_counterexample:
  "match_regions no_aligns [] [] = ([], []) \<and> count_matches [] [] = Some 0
   \<and> \<not> (0 < int (length ([] :: string)) - int 0)
   \<and> trim_adaptor no_aligns [] [] 0 True = Inr []"
  by (simp add: trim_adaptor_def match_regions_def remove_adaptor_def strip_gaps_def
      py_slice_def py_slice_to_def py_index_def Let_def)

subsection \<open>No alignment\<close>

text \<open>
  Claim C3, as amended. When the adaptor does not occur in the read and the aligner
  returns no alignment, both regions are empty and no position matches, so the error
  count is \<open>len(adaptor)\<close>. The read is returned unchanged when \<open>num_errors\<close> is below
  \<open>len(adaptor)\<close>; from \<open>len(adaptor)\<close> on, the removal step runs on the empty region and
  returns the empty string.
\<close>

theorem no_alignment_no_trim:
  assumes "\<not> sublist adaptor seq" and "localms seq adaptor = []"
  shows "match_regions localms seq adaptor = ([], [])
       \<and> count_matches [] [] = Some 0
       \<and> (num_errors < int (length adaptor) \<longrightarrow>
            trim_adaptor localms seq adaptor num_errors side = Inr seq)
       \<and> (int (length adaptor) \<le> num_errors \<longrightarrow>
            trim_adaptor localms seq adaptor num_errors side = Inr [])"
proof -
  have "\<not> 0 \<le> py_find seq adaptor" using assms(1) by (simp add: py_find_sublist)
  then have mr: "match_regions localms seq adaptor = ([], [])"
    using assms(2) by (simp add: match_regions_def)
  have "remove_adaptor seq (strip_gaps []) side = []"
    by (simp add: remove_adaptor_def strip_gaps_def py_slice_to_def py_slice_from_def
        py_index_def)
  then show ?thesis
    using mr by (simp add: trim_adaptor_def)
qed

text \<open>
  The theorem at the input of test \<^verbatim>\<open>t_6_no_alignment\<close>.
\<close>

theorem no_alignment_no_trim_witness:
  "trim_adaptor no_aligns ''TTTTTTTTTTTTTTTTT'' ''AAAAAAAAAAAAAA'' 2 True
     = Inr ''TTTTTTTTTTTTTTTTT''"
proof -
  have "py_find ''TTTTTTTTTTTTTTTTT'' ''AAAAAAAAAAAAAA'' = - 1" by (simp add: Let_def)
  then have "\<not> sublist ''AAAAAAAAAAAAAA'' ''TTTTTTTTTTTTTTTTT''"
    using py_find_sublist [of "''TTTTTTTTTTTTTTTTT''" "''AAAAAAAAAAAAAA''"] by simp
  then show ?thesis
    using no_alignment_no_trim [of "''AAAAAAAAAAAAAA''" "''TTTTTTTTTTTTTTTTT''" no_aligns 2 True]
    by (simp add: no_aligns_def)
qed

text \<open>
  Claim C3 as stated fails for a tolerance that reaches the length of the adaptor: the
  read \<^verbatim>\<open>TTTT\<close> with adaptor \<^verbatim>\<open>AA\<close> and tolerance 2 is trimmed to the empty string.
\<close>

theorem no_alignment_counterexample:
  "py_find ''TTTT'' ''AA'' = - 1 \<and> no_aligns ''TTTT'' ''AA'' = []
   \<and> match_regions no_aligns ''TTTT'' ''AA'' = ([], [])
   \<and> trim_adaptor no_aligns ''TTTT'' ''AA'' 2 True = Inr []
   \<and> trim_adaptor no_aligns ''TTTT'' ''AA'' 2 True \<noteq> Inr ''TTTT''"
  by (simp add: trim_adaptor_def match_regions_def remove_adaptor_def strip_gaps_def
      no_aligns_def py_slice_to_def py_index_def Let_def)

lemma match_regions_same_length:
  assumes "equal_length_alignment (localms seq adaptor)"
    and "match_regions localms seq adaptor = (sr, ar)"
  shows "length sr = length ar"
proof (cases "0 \<le> py_find seq adaptor")
  case True
  from match_regions_exact [OF True, of localms] assms(2) show ?thesis by simp
next
  case False
  show ?thesis
  proof (cases "localms seq adaptor")
    case Nil
    with False assms(2) show ?thesis by (simp add: match_regions_def)
  next
    case (Cons a rest)
    obtain seq_a adaptor_a score start "end" where a: "a = (seq_a, adaptor_a, score, start, end)"
      by (cases a) auto
    from assms(1) Cons a have "length seq_a = length adaptor_a"
      by (simp add: equal_length_alignment_def)
    then have "length (py_slice seq_a start end) = length (py_slice adaptor_a start end)"
      by (rule py_slice_same_length)
    with False assms(2) Cons a show ?thesis by (auto simp: match_regions_def)
  qed
qed

lemma trim_adaptor_returns:
  assumes "equal_length_alignment (localms seq adaptor)"
  shows "\<exists>r. trim_adaptor localms seq adaptor num_errors side = Inr r"
proof -
  obtain sr ar where mr: "match_regions localms seq adaptor = (sr, ar)"
    by (cases "match_regions localms seq adaptor") auto
  with assms have "length sr = length ar" by (rule match_regions_same_length)
  then have "count_matches sr ar \<noteq> None" by (simp add: count_matches_None)
  then obtain m where "count_matches sr ar = Some m" by auto
  from trim_adaptor_branches [OF mr this] show ?thesis by simp
qed

subsection \<open>The counting loop\<close>

text \<open>
  Claim C4. Provided the aligner pads both aligned strings to one length, the read-side
  and the adaptor-side region have the same length on every path (exact match,
  alignment, no alignment). The counting loop then never reads past the end of the
  adaptor-side region: it returns the number of positions of the read-side region at
  which the two symbols are equal, so a gap marker against any other symbol is a
  mismatch, and whatever follows in the adaptor-side region beyond the length of the
  read-side region is not looked at. So no call with such an aligner ends in
  \<^verbatim>\<open>IndexError\<close>.
\<close>

theorem regions_equal_length:
  assumes "equal_length_alignment (localms seq adaptor)"
    and "match_regions localms seq adaptor = (sr, ar)"
  shows "length sr = length ar
       \<and> count_matches sr ar = Some (length (filter (\<lambda>(s, a). s = a) (zip sr ar)))
       \<and> (\<forall>extra. count_matches sr (ar @ extra) = count_matches sr ar)
       \<and> trim_adaptor localms seq adaptor num_errors side \<noteq> Inl IndexError"
proof -
  have len: "length sr = length ar"
    using assms by (rule match_regions_same_length)
  then have le: "length sr \<le> length ar" by simp
  have "count_matches sr ar = Some (length (filter (\<lambda>(s, a). s = a) (zip sr ar)))"
    using le by (rule count_matches_zip)
  moreover have "\<forall>extra. count_matches sr (ar @ extra) = count_matches sr ar"
    using le by (simp only: count_matches_append simp_thms)
  moreover have "trim_adaptor localms seq adaptor num_errors side \<noteq> Inl IndexError"
    using trim_adaptor_returns [of localms seq adaptor num_errors side] assms(1) by auto
  ultimately show ?thesis using len by blast
qed

text \<open>
  The theorem at the read of test \<^verbatim>\<open>t_1_simple_trim\<close> with one mismatch: regions of
  length 12, 11 matching positions.
\<close>

theorem regions_equal_length_witness:
  "match_regions test_aligns ''GGGGATCGTTCGATCCCC'' ''GATCGATCGATC''
     = (''GATCGTTCGATC'', ''GATCGATCGATC'')
   \<and> count_matches ''GATCGTTCGATC'' ''GATCGATCGATC'' = Some 11"
proof -
  have "equal_length_alignment (test_aligns ''GGGGATCGTTCGATCCCC'' ''GATCGATCGATC'')"
    by (simp add: equal_length_alignment_def test_aligns_def)
  from regions_equal_length [of test_aligns "''GGGGATCGTTCGATCCCC''" "''GATCGATCGATC''", OF this test_regions]
  show ?thesis
    by (simp add: test_regions)
qed

subsection \<open>Removal\<close>

text \<open>
  Claim C5. When the error count is within the tolerance, removal works on the read-side
  region with every gap marker \<^verbatim>\<open>'-'\<close> deleted, taken as a literal substring of the
  read: the result is that of \<^verbatim>\<open>_remove_adaptor\<close> on this literal. On the right side
  it is what stands before the first occurrence of the literal in the read; on the
  left side it is what stands after its last occurrence.
\<close>

theorem removal_first_last:
  assumes "match_regions localms seq adaptor = (sr, ar)"
    and "count_matches sr ar = Some m"
    and "int (length adaptor) - int m \<le> num_errors"
    and "region = filter (\<lambda>c. c \<noteq> CHR ''-'') sr"
  shows "trim_adaptor localms seq adaptor num_errors side
           = Inr (remove_adaptor seq region side)
       \<and> (\<forall>pre post. seq = pre @ region @ post
            \<and> (\<forall>pre' post'. seq = pre' @ region @ post' \<longrightarrow> length pre \<le> length pre')
            \<longrightarrow> trim_adaptor localms seq adaptor num_errors True = Inr pre)
       \<and> (\<forall>pre post. seq = pre @ region @ post
            \<and> (\<forall>pre' post'. seq = pre' @ region @ post' \<longrightarrow> length pre' \<le> length pre)
            \<longrightarrow> trim_adaptor localms seq adaptor num_errors False = Inr post)"
proof (intro conjI allI impI)
  have sg: "strip_gaps sr = region"
    using assms(4) by (simp add: strip_gaps_def gap_char_def)
  have accepted: "trim_adaptor localms seq adaptor num_errors b
      = Inr (remove_adaptor seq region b)" for b
    using trim_adaptor_branches [OF assms(1,2), of num_errors b] assms(3) sg by simp
  show "trim_adaptor localms seq adaptor num_errors side
      = Inr (remove_adaptor seq region side)"
    by (rule accepted)
  {
    fix pre post
    assume h: "seq = pre @ region @ post
      \<and> (\<forall>pre' post'. seq = pre' @ region @ post' \<longrightarrow> length pre \<le> length pre')"
    then have "py_find seq region = int (length pre)"
      by (intro py_find_first) auto
    then have "remove_adaptor seq region True = pre"
      using h by (simp add: remove_adaptor_def py_slice_to_nat)
    then show "trim_adaptor localms seq adaptor num_errors True = Inr pre"
      by (simp add: accepted)
  }
  {
    fix pre post
    assume h: "seq = pre @ region @ post
      \<and> (\<forall>pre' post'. seq = pre' @ region @ post' \<longrightarrow> length pre' \<le> length pre)"
    then have "py_rfind seq region = int (length pre)"
      by (intro py_rfind_last) auto
    moreover have "int (length pre) + int (length region)
        = int (length pre + length region)" by simp
    ultimately have "remove_adaptor seq region False
        = drop (length pre + length region) seq"
      by (simp only: remove_adaptor_def Let_def if_False py_slice_from_nat)
    also have "\<dots> = post" using h by simp
    finally show "trim_adaptor localms seq adaptor num_errors False = Inr post"
      by (simp add: accepted)
  }
qed

lemma deletion_regions:
  "match_regions deletion_aligns ''GGGGATCGATCGTCCCCGATCGATCGTCTTT'' ''GATCGATCGATC''
     = (''GATCGATCG-TC'', ''GATCGATCGATC'')"
  by (simp add: match_regions_def deletion_aligns_def py_slice_def py_index_def Let_def)

text \<open>
  The theorem at a read whose read-side region holds a gap and whose stripped region
  \<^verbatim>\<open>GATCGATCGTC\<close> occurs twice, at offsets 3 and 17, with the tolerance equal to the
  error count 1: the right side keeps \<^verbatim>\<open>GGG\<close>, before the first occurrence, and the
  left side keeps \<^verbatim>\<open>TTT\<close>, after the last one.
\<close>

theorem removal_first_last_witness:
  "trim_adaptor deletion_aligns ''GGGGATCGATCGTCCCCGATCGATCGTCTTT'' ''GATCGATCGATC'' 1 True
     = Inr ''GGG''
   \<and> trim_adaptor deletion_aligns ''GGGGATCGATCGTCCCCGATCGATCGTCTTT'' ''GATCGATCGATC'' 1 False
     = Inr ''TTT''"
proof -
  let ?seq = "''GGGGATCGATCGTCCCCGATCGATCGTCTTT''"
  let ?reg = "''GATCGATCGTC''"
  have c: "count_matches ''GATCGATCG-TC'' ''GATCGATCGATC'' = Some 11" by simp
  have e: "int (length ''GATCGATCGATC'') - int 11 \<le> 1" by simp
  have s: "?reg = filter (\<lambda>c. c \<noteq> CHR ''-'') ''GATCGATCG-TC''" by simp
  have split_first: "?seq = ''GGG'' @ ?reg @ ''CCCGATCGATCGTCTTT''" by simp
  have split_last: "?seq = ''GGGGATCGATCGTCCCC'' @ ?reg @ ''TTT''" by simp
  have first: "\<forall>pre' post'. ?seq = pre' @ ?reg @ post' \<longrightarrow> length ''GGG'' \<le> length pre'"
  proof (intro allI impI)
    fix pre' post' :: string
    assume eq: "?seq = pre' @ ?reg @ post'"
    have "py_find (pre' @ ?reg @ post') ?reg \<le> int (length pre')" by (rule py_find_le)
    moreover have "py_find ?seq ?reg = 3" by (simp add: Let_def)
    ultimately show "length ''GGG'' \<le> length pre'" using eq by simp
  qed
  have last: "\<forall>pre' post'. ?seq = pre' @ ?reg @ post'
      \<longrightarrow> length pre' \<le> length ''GGGGATCGATCGTCCCC''"
  proof (intro allI impI)
    fix pre' post' :: string
    assume eq: "?seq = pre' @ ?reg @ post'"
    have "int (length pre') \<le> py_rfind (pre' @ ?reg @ post') ?reg" by (rule py_rfind_ge)
    moreover have "py_rfind ?seq ?reg = 17" by (simp add: Let_def)
    ultimately show "length pre' \<le> length ''GGGGATCGATCGTCCCC''" using eq by simp
  qed
  from removal_first_last [OF deletion_regions c e s] split_first first split_last last
  show ?thesis
    by blast
qed

lemma stripped_region_sublist:
  assumes "gap_char \<notin> set seq" and "read_aligned seq (localms seq adaptor)"
  shows "sublist (strip_gaps (fst (match_regions localms seq adaptor))) seq"
proof (cases "0 \<le> py_find seq adaptor")
  case True
  then have sub: "sublist adaptor seq" by (simp add: py_find_sublist)
  then have "set adaptor \<subseteq> set seq" by (rule set_mono_sublist)
  with assms(1) have "strip_gaps adaptor = adaptor" by (auto intro: strip_gaps_id)
  with sub match_regions_exact [OF True, of localms] show ?thesis by simp
next
  case False
  show ?thesis
  proof (cases "localms seq adaptor")
    case Nil
    with False show ?thesis by (simp add: match_regions_def strip_gaps_def)
  next
    case (Cons a rest)
    obtain seq_a adaptor_a score start "end" where a: "a = (seq_a, adaptor_a, score, start, end)"
      by (cases a) auto
    from assms(2) Cons a have readback: "strip_gaps seq_a = seq"
      by (simp add: read_aligned_def)
    obtain pre post where "seq_a = pre @ py_slice seq_a start end @ post"
      using py_slice_split by blast
    then have "strip_gaps seq_a
        = strip_gaps pre @ strip_gaps (py_slice seq_a start end) @ strip_gaps post"
      by (metis filter_append strip_gaps_def)
    with readback have "sublist (strip_gaps (py_slice seq_a start end)) seq"
      by (metis sublist_appendI)
    with False Cons a show ?thesis by (simp add: match_regions_def)
  qed
qed

lemma trim_adaptor_prefix_suffix:
  assumes "trim_adaptor localms seq adaptor num_errors side = Inr r"
  shows "if side then prefix r seq else suffix r seq"
  using assms
  by (auto simp: trim_adaptor_def remove_adaptor_def py_slice_to_prefix py_slice_from_suffix
      split: prod.splits option.splits if_splits)

subsection \<open>The result is a prefix or a suffix of the read\<close>

text \<open>
  Claim C7, as amended. Provided the aligner pads both aligned strings to one length,
  \<^verbatim>\<open>trim_adaptor\<close> returns a prefix of the read on the right side and a suffix of it on
  the left side, never longer than the read. When moreover the read holds no gap
  marker and the aligned read-side string is the read with gap markers inserted, the
  stripped read-side region is a contiguous substring of the read, and \<^verbatim>\<open>find\<close> and
  \<^verbatim>\<open>rfind\<close> locate it.
\<close>

theorem result_is_prefix_or_suffix:
  assumes "equal_length_alignment (localms seq adaptor)"
  shows "(\<exists>r. trim_adaptor localms seq adaptor num_errors True = Inr r
            \<and> prefix r seq \<and> length r \<le> length seq)
       \<and> (\<exists>r. trim_adaptor localms seq adaptor num_errors False = Inr r
            \<and> suffix r seq \<and> length r \<le> length seq)
       \<and> (gap_char \<notin> set seq \<and> read_aligned seq (localms seq adaptor) \<longrightarrow>
            sublist (strip_gaps (fst (match_regions localms seq adaptor))) seq
          \<and> 0 \<le> py_find seq (strip_gaps (fst (match_regions localms seq adaptor)))
          \<and> 0 \<le> py_rfind seq (strip_gaps (fst (match_regions localms seq adaptor))))"
proof (intro conjI impI)
  from trim_adaptor_returns [of localms seq adaptor num_errors True] assms obtain r
    where r: "trim_adaptor localms seq adaptor num_errors True = Inr r" by blast
  from trim_adaptor_prefix_suffix [OF r] have "prefix r seq" by simp
  then show "\<exists>r. trim_adaptor localms seq adaptor num_errors True = Inr r
      \<and> prefix r seq \<and> length r \<le> length seq"
    using r prefix_length_le by blast
next
  from trim_adaptor_returns [of localms seq adaptor num_errors False] assms obtain r
    where r: "trim_adaptor localms seq adaptor num_errors False = Inr r" by blast
  from trim_adaptor_prefix_suffix [OF r] have "suffix r seq" by simp
  then show "\<exists>r. trim_adaptor localms seq adaptor num_errors False = Inr r
      \<and> suffix r seq \<and> length r \<le> length seq"
    using r suffix_length_le by blast
next
  assume h: "gap_char \<notin> set seq \<and> read_aligned seq (localms seq adaptor)"
  then show s: "sublist (strip_gaps (fst (match_regions localms seq adaptor))) seq"
    by (simp add: stripped_region_sublist)
  from s show "0 \<le> py_find seq (strip_gaps (fst (match_regions localms seq adaptor)))"
    by (simp add: py_find_sublist)
  from s show "0 \<le> py_rfind seq (strip_gaps (fst (match_regions localms seq adaptor)))"
    by (simp add: py_rfind_sublist)
qed

text \<open>
  The theorem at the read of test \<^verbatim>\<open>t_1_simple_trim\<close> with one mismatch.
\<close>

theorem result_is_prefix_or_suffix_witness:
  "(\<exists>r. trim_adaptor test_aligns ''GGGGATCGTTCGATCCCC'' ''GATCGATCGATC'' 2 True = Inr r
        \<and> prefix r ''GGGGATCGTTCGATCCCC'' \<and> length r \<le> length ''GGGGATCGTTCGATCCCC'')
   \<and> sublist (strip_gaps ''GATCGTTCGATC'') ''GGGGATCGTTCGATCCCC''"
proof -
  let ?seq = "''GGGGATCGTTCGATCCCC''"
  have el: "equal_length_alignment (test_aligns ?seq ''GATCGATCGATC'')"
    by (simp add: equal_length_alignment_def test_aligns_def)
  have gap: "gap_char \<notin> set ?seq"
    by (simp add: gap_char_def)
  have ra: "read_aligned ?seq (test_aligns ?seq ''GATCGATCGATC'')"
    by (simp add: read_aligned_def test_aligns_def strip_gaps_def gap_char_def)
  note inst = result_is_prefix_or_suffix [of test_aligns ?seq "''GATCGATCGATC''" 2, OF el]
  from inst gap ra
  have "sublist (strip_gaps (fst (match_regions test_aligns ?seq ''GATCGATCGATC''))) ?seq"
    by blast
  then have "sublist (strip_gaps ''GATCGTTCGATC'') ?seq"
    by (simp only: test_regions fst_conv)
  with inst show ?thesis by blast
qed

text \<open>
  Claim C7 as stated fails in its invariant: for the read \<^verbatim>\<open>A-C\<close> and the adaptor
  \<^verbatim>\<open>A-C\<close> the stripped read-side region is \<^verbatim>\<open>AC\<close>, which does not occur in the read;
  \<^verbatim>\<open>find\<close> and \<^verbatim>\<open>rfind\<close> return \<open>-1\<close> and the slice \<^verbatim>\<open>seq[:-1]\<close> drops the last
  symbol. The result is still a prefix of the read.
\<close>

theorem region_not_found_counterexample:
  "match_regions no_aligns ''A-C'' ''A-C'' = (''A-C'', ''A-C'')
   \<and> strip_gaps ''A-C'' = ''AC''
   \<and> py_find ''A-C'' ''AC'' = - 1 \<and> py_rfind ''A-C'' ''AC'' = - 1
   \<and> trim_adaptor no_aligns ''A-C'' ''A-C'' 0 True = Inr ''A-''"
  by (simp add: trim_adaptor_def match_regions_def remove_adaptor_def strip_gaps_def
      gap_char_def py_slice_def py_slice_to_def py_index_def Let_def)

lemma py_find_prefix: "prefix t s \<Longrightarrow> py_find s t = 0"
  by (cases s) simp_all

lemma py_rfind_suffix:
  assumes "suffix t s"
  shows "py_rfind s t = int (length s) - int (length t)"
proof -
  from assms obtain pre where s: "s = pre @ t" by (auto simp: suffix_def)
  then have "s = pre @ t @ []" by simp
  moreover have "\<forall>pre' post'. s = pre' @ t @ post' \<longrightarrow> length pre' \<le> length pre"
  proof (intro allI impI)
    fix pre' post' :: "'a list"
    assume "s = pre' @ t @ post'"
    then have "length s = length pre' + length t + length post'" by simp
    moreover have "length s = length pre + length t" using s by simp
    ultimately show "length pre' \<le> length pre" by simp
  qed
  ultimately have "py_rfind s t = int (length pre)" by (rule py_rfind_last)
  then show ?thesis using s by simp
qed

lemma qual_slice:
  assumes "length seq = length qual"
    and "trim_adaptor localms seq adaptor num_errors side = Inr tseq"
  shows "length (py_slice qual (if side then py_find seq tseq else py_rfind seq tseq)
            ((if side then py_find seq tseq else py_rfind seq tseq) + int (length tseq)))
         = length tseq"
proof (cases side)
  case True
  with trim_adaptor_prefix_suffix [OF assms(2)] have p: "prefix tseq seq" by simp
  then have "length tseq \<le> length qual" using assms(1) prefix_length_le by fastforce
  moreover have "py_slice qual (int 0) (int 0 + int (length tseq))
      = take (length tseq) (drop 0 qual)" by (rule py_slice_nat)
  ultimately show ?thesis using True p by (simp add: py_find_prefix)
next
  case False
  with trim_adaptor_prefix_suffix [OF assms(2)] have p: "suffix tseq seq" by simp
  then have le: "length tseq \<le> length qual" using assms(1) suffix_length_le by fastforce
  let ?k = "length seq - length tseq"
  have "py_rfind seq tseq = int ?k"
    using py_rfind_suffix [OF p] le assms(1) by simp
  moreover have "py_slice qual (int ?k) (int ?k + int (length tseq))
      = take (length tseq) (drop ?k qual)" by (rule py_slice_nat)
  ultimately show ?thesis using False le assms(1) by simp
qed

subsection \<open>Trimming with a quality string\<close>

text \<open>
  Claim C6. When the lengths of the read and of the quality string differ, the call
  fails at once with an assertion error. When they are equal (and the aligner pads
  both aligned strings to one length, so that \<^verbatim>\<open>trim_adaptor\<close> returns), the call
  returns a pair: the result of \<^verbatim>\<open>trim_adaptor\<close>, and the slice of the quality string
  at the offset that \<^verbatim>\<open>find\<close> (right side) or \<^verbatim>\<open>rfind\<close> (left side) gives for the
  trimmed read in the read; the two have the same length.
\<close>

theorem trim_adaptor_w_qual_pair:
  assumes "equal_length_alignment (localms seq adaptor)"
  shows "(length seq \<noteq> length qual \<longrightarrow>
            trim_adaptor_w_qual localms seq qual adaptor num_errors side = Inl AssertionError)
       \<and> (length seq = length qual \<longrightarrow>
            (\<exists>tseq tqual pos.
               trim_adaptor_w_qual localms seq qual adaptor num_errors side = Inr (tseq, tqual)
             \<and> trim_adaptor localms seq adaptor num_errors side = Inr tseq
             \<and> pos = (if side then py_find seq tseq else py_rfind seq tseq)
             \<and> tqual = py_slice qual pos (pos + int (length tseq))
             \<and> length tseq = length tqual))"
proof (intro conjI impI)
  assume "length seq \<noteq> length qual"
  then show "trim_adaptor_w_qual localms seq qual adaptor num_errors side = Inl AssertionError"
    by (simp add: trim_adaptor_w_qual_def)
next
  assume len: "length seq = length qual"
  from trim_adaptor_returns [of localms seq adaptor num_errors side] assms obtain tseq
    where t: "trim_adaptor localms seq adaptor num_errors side = Inr tseq" by blast
  define pos where "pos = (if side then py_find seq tseq else py_rfind seq tseq)"
  define tqual where "tqual = py_slice qual pos (pos + int (length tseq))"
  have l: "length tqual = length tseq"
    unfolding tqual_def pos_def using len t by (rule qual_slice)
  have "trim_adaptor_w_qual localms seq qual adaptor num_errors side = Inr (tseq, tqual)"
    using len t l by (simp add: trim_adaptor_w_qual_def Let_def pos_def tqual_def)
  with t l pos_def tqual_def
  show "\<exists>tseq tqual pos.
      trim_adaptor_w_qual localms seq qual adaptor num_errors side = Inr (tseq, tqual)
    \<and> trim_adaptor localms seq adaptor num_errors side = Inr tseq
    \<and> pos = (if side then py_find seq tseq else py_rfind seq tseq)
    \<and> tqual = py_slice qual pos (pos + int (length tseq))
    \<and> length tseq = length tqual"
    by (intro exI [of _ tseq] exI [of _ tqual] exI [of _ pos]) simp
qed

lemma test_trim:
  "trim_adaptor test_aligns ''GGGGATCGTTCGATCCCC'' ''GATCGATCGATC'' 2 True = Inr ''GGG''"
  by (simp add: trim_adaptor_def test_regions remove_adaptor_def strip_gaps_def gap_char_def
      py_slice_to_def py_index_def Let_def)

text \<open>
  The theorem at the input of test \<^verbatim>\<open>t_5_passing_tuple\<close>, and at a quality string that
  is too short.
\<close>

theorem trim_adaptor_w_qual_pair_witness:
  "trim_adaptor_w_qual test_aligns ''GGGGATCGTTCGATCCCC'' ''YDV`a`a^[Xa`a`^`_O''
       ''GATCGATCGATC'' 2 True = Inr (''GGG'', ''YDV'')
   \<and> trim_adaptor_w_qual test_aligns ''GGGGATCGTTCGATCCCC'' ''YDV''
       ''GATCGATCGATC'' 2 True = Inl AssertionError"
proof -
  let ?seq = "''GGGGATCGTTCGATCCCC''"
  let ?qual = "''YDV`a`a^[Xa`a`^`_O''"
  have el: "equal_length_alignment (test_aligns ?seq ''GATCGATCGATC'')"
    by (simp add: equal_length_alignment_def test_aligns_def)
  have len: "length ?seq = length ?qual" by simp
  from trim_adaptor_w_qual_pair [of test_aligns ?seq "''GATCGATCGATC''" ?qual 2 True] el len
  obtain tseq tqual pos
    where w: "trim_adaptor_w_qual test_aligns ?seq ?qual ''GATCGATCGATC'' 2 True = Inr (tseq, tqual)"
      and t: "trim_adaptor test_aligns ?seq ''GATCGATCGATC'' 2 True = Inr tseq"
      and p: "pos = (if True then py_find ?seq tseq else py_rfind ?seq tseq)"
      and q: "tqual = py_slice ?qual pos (pos + int (length tseq))"
    by blast
  from t have tseq: "tseq = ''GGG''" by (simp add: test_trim)
  with p have "pos = 0" by simp
  with q tseq have "tqual = ''YDV''" by (simp add: py_slice_def py_index_def)
  with w tseq have first: "trim_adaptor_w_qual test_aligns ?seq ?qual ''GATCGATCGATC'' 2 True
      = Inr (''GGG'', ''YDV'')" by simp
  have "length ?seq \<noteq> length ''YDV''" by simp
  with trim_adaptor_w_qual_pair [of test_aligns ?seq "''GATCGATCGATC''" "''YDV''" 2 True] el
  have "trim_adaptor_w_qual test_aligns ?seq ''YDV'' ''GATCGATCGATC'' 2 True = Inl AssertionError"
    by blast
  with first show ?thesis by blast
qed

subsection \<open>The batch driver\<close>

text \<open>
  Claim C8. Provided the aligner pads both aligned strings to one length for every
  record, the loop ends without an exception, and what it has written is, in the order
  of the input, one record for each input record whose trimmed length \<open>L\<close> satisfies
  \<open>0 < L < len(rec)\<close>, and none for the others: the record with its identifier, the
  trimmed sequence and the letter annotations cleared.
\<close>

theorem main_loop_written:
  assumes "\<forall>rec \<in> set recs. equal_length_alignment (localms (rec_seq rec) adaptor_seq)"
  shows "main_loop localms adaptor_seq num_errors recs out =
           (None, out @
              map (\<lambda>rec. rec\<lparr>letter_annotations := [],
                     rec_seq := projr (trim_adaptor localms (rec_seq rec) adaptor_seq num_errors True)\<rparr>)
                (filter (\<lambda>rec.
                     0 < length (projr (trim_adaptor localms (rec_seq rec) adaptor_seq num_errors True))
                   \<and> length (projr (trim_adaptor localms (rec_seq rec) adaptor_seq num_errors True))
                       < length (rec_seq rec)) recs))"
  using assms
proof (induction recs arbitrary: out)
  case Nil
  show ?case by simp
next
  case (Cons rec recs)
  from Cons.prems have "equal_length_alignment (localms (rec_seq rec) adaptor_seq)" by simp
  with trim_adaptor_returns [of localms "rec_seq rec" adaptor_seq num_errors True] obtain trim
    where t: "trim_adaptor localms (rec_seq rec) adaptor_seq num_errors True = Inr trim" by blast
  from Cons.prems have rest: "\<forall>rec \<in> set recs. equal_length_alignment (localms (rec_seq rec) adaptor_seq)"
    by simp
  show ?case
    by (simp add: t Cons.IH [OF rest])
qed


text \<open>
  The theorem at three records: the first is trimmed and written, the second is left
  untouched and the third is trimmed to length zero, so neither is written.
\<close>

theorem main_loop_written_witness:
  "main_loop test_aligns ''GATCGATCGATC'' 2 test_records [] =
     (None, [\<lparr>rec_id = ''read1'', rec_seq = ''GGG'', letter_annotations = []\<rparr>])"
proof -
  have el: "\<forall>rec \<in> set test_records.
      equal_length_alignment (test_aligns (rec_seq rec) ''GATCGATCGATC'')"
    by (simp add: test_records_def equal_length_alignment_def test_aligns_def)
  have t2: "trim_adaptor test_aligns ''TTTT'' ''GATCGATCGATC'' 2 True = Inr ''TTTT''"
    by (simp add: trim_adaptor_def match_regions_def test_aligns_def Let_def)
  have t3: "trim_adaptor test_aligns ''GATCGATCGATCCC'' ''GATCGATCGATC'' 2 True = Inr []"
    by (simp add: trim_adaptor_def match_regions_def remove_adaptor_def strip_gaps_def
        gap_char_def py_slice_def py_slice_to_def py_index_def Let_def)
  from main_loop_written [of test_records test_aligns "''GATCGATCGATC''" 2 "[]", OF el]
  show ?thesis
    by (simp add: test_records_def test_trim t2 t3)
qed

end
